theory Spec2Isabelle
  imports Main "HOL-Library.Word"
begin

unbundle bit_operations_syntax

section \<open>Integer types\<close>

text \<open>
  The integer types of DEV\_Config.h: \<open>UBYTE\<close> is \<open>uint8_t\<close>, \<open>UWORD\<close> is
  \<open>uint16_t\<close>, \<open>UDOUBLE\<close> is \<open>uint32_t\<close>.
\<close>

type_synonym UBYTE = "8 word"
type_synonym UWORD = "16 word"
type_synonym UDOUBLE = "32 word"

section \<open>Arrays\<close>

text \<open>
  A C array is the list of its elements. \<open>store\<close> is the assignment \<open>a[i] = v\<close>:
  inside the array it replaces the element; an index past the end addresses memory
  outside the array (undefined behaviour in C) and leaves the elements of the array
  itself as they are.
\<close>

definition store :: "UBYTE list \<Rightarrow> nat \<Rightarrow> UBYTE \<Rightarrow> UBYTE list" where
  "store buf i v = (if i < length buf then buf[i := v] else buf)"

section \<open>Bus transport (stitch\_cam\_v5/DEV\_Config.cpp, DEV\_Config.h)\<close>

datatype pin = DEV_CS_PIN | DEV_DC_PIN | DEV_RST_PIN | DEV_BL_PIN

text \<open>
  What the display bus sees, in order: a level written to a pin
  (\<open>DEV_Digital_Write\<close>, \<open>True\<close> is HIGH), \<open>SPIlcd.beginTransaction\<close> with its
  clock in Hz, \<open>SPIlcd.transfer\<close> of one byte, \<open>SPIlcd.writeBytes\<close> of a block,
  and \<open>SPIlcd.endTransaction\<close>.
\<close>

datatype bus_event =
    Digital_Write pin bool
  | Begin_Transaction nat
  | Transfer UBYTE
  | Write_Bytes "UBYTE list"
  | End_Transaction

text \<open>
  The file-scope state of DEV\_Config.cpp: \<open>static bool bulk_active\<close>,
  \<open>static uint8_t dmaBuffer[DMA_BUFFER_SIZE]\<close>, and the bus itself as the trace of
  what was done on it.
\<close>

record lcd =
  bulk_active :: bool
  dmaBuffer :: "UBYTE list"
  trace :: "bus_event list"

definition DMA_BUFFER_SIZE :: nat where
  "DMA_BUFFER_SIZE = 16384"

text \<open>Static initialisation: \<open>bulk_active = false\<close>, a zeroed buffer, nothing sent.\<close>

definition lcd_init :: "nat \<Rightarrow> lcd" where
  "lcd_init n = \<lparr>bulk_active = False, dmaBuffer = replicate n 0, trace = []\<rparr>"

definition emit :: "bus_event list \<Rightarrow> lcd \<Rightarrow> lcd" where
  "emit es s = s\<lparr>trace := trace s @ es\<rparr>"

text \<open>
  A pointer argument \<open>const uint8_t *data\<close> is the list of the array's bytes from
  the pointer on; \<open>writeBytes(data, len)\<close> sends the first \<open>len\<close> of them. A
  \<open>len\<close> beyond the array would read past it; the model sends what the array holds.
\<close>

definition DEV_SPI_Write_DMA :: "UBYTE list \<Rightarrow> UDOUBLE \<Rightarrow> lcd \<Rightarrow> lcd" where
  "DEV_SPI_Write_DMA dat len s =
     (if len = 0 then s
      else emit [Begin_Transaction 80000000, Write_Bytes (take (unat len) dat),
                 End_Transaction] s)"

definition DEV_SPI_Write_Bulk_Start :: "lcd \<Rightarrow> lcd" where
  "DEV_SPI_Write_Bulk_Start s =
     (emit [Digital_Write DEV_CS_PIN False, Digital_Write DEV_DC_PIN True,
            Begin_Transaction 80000000] s)\<lparr>bulk_active := True\<rparr>"

definition DEV_SPI_Write_Bulk_Data :: "UBYTE list \<Rightarrow> UDOUBLE \<Rightarrow> lcd \<Rightarrow> lcd" where
  "DEV_SPI_Write_Bulk_Data dat len s =
     (if len = 0 \<or> \<not> bulk_active s then s
      else emit [Write_Bytes (take (unat len) dat)] s)"

definition DEV_SPI_Write_Bulk_End :: "lcd \<Rightarrow> lcd" where
  "DEV_SPI_Write_Bulk_End s =
     (if bulk_active s
      then (emit [End_Transaction, Digital_Write DEV_CS_PIN True] s)\<lparr>bulk_active := False\<rparr>
      else s)"

text \<open>
  Every byte put on the bus, by \<open>transfer\<close> or by \<open>writeBytes\<close>, in order; the
  bytes sent by \<open>writeBytes\<close> alone, together and block by block; and how often
  chip-select was raised.
\<close>

fun bus_bytes :: "bus_event list \<Rightarrow> UBYTE list" where
  "bus_bytes [] = []"
| "bus_bytes (Transfer b # es) = b # bus_bytes es"
| "bus_bytes (Write_Bytes bs # es) = bs @ bus_bytes es"
| "bus_bytes (e # es) = bus_bytes es"

fun pixel_bytes :: "bus_event list \<Rightarrow> UBYTE list" where
  "pixel_bytes [] = []"
| "pixel_bytes (Write_Bytes bs # es) = bs @ pixel_bytes es"
| "pixel_bytes (e # es) = pixel_bytes es"


definition cs_raised :: "bus_event list \<Rightarrow> nat" where
  "cs_raised es = length (filter (\<lambda>e. e = Digital_Write DEV_CS_PIN True) es)"

section \<open>Capture and decode (stitch\_cam\_v2/camera\_manager.h, config.h)\<close>

definition FRAME_WIDTH :: nat where "FRAME_WIDTH = 320"
definition FRAME_HEIGHT :: nat where "FRAME_HEIGHT = 240"
definition FRAME_BUFFER_SIZE :: nat where "FRAME_BUFFER_SIZE = FRAME_WIDTH * FRAME_HEIGHT * 2"
definition MAX_JPEG_SIZE :: UDOUBLE where "MAX_JPEG_SIZE = 32768"

text \<open>
  The static members of \<open>CameraManager\<close>, and \<open>clock\<close>, the reading of the
  platform's millisecond counter \<open>millis()\<close> (\<open>uint32_t\<close>, wrapping).
\<close>

record camera =
  isAvailable :: bool
  jpegBuffer :: "UBYTE list"
  jpegLength :: UDOUBLE
  frameBuffer :: "UBYTE list"
  clock :: UDOUBLE

text \<open>
  The sensor is outside the program: \<open>cap_done t\<close> is the \<open>CAP_DONE_MASK\<close> bit
  of \<open>ARDUCHIP_TRIG\<close> read when the clock shows \<open>t\<close>, \<open>fifo_length\<close> is what
  \<open>read_fifo_length()\<close> returns, and \<open>fifo_data i\<close> is the \<open>i\<close>-th byte that the
  burst read delivers.
\<close>

record sensor =
  cap_done :: "UDOUBLE \<Rightarrow> bool"
  fifo_length :: UDOUBLE
  fifo_data :: "nat \<Rightarrow> UBYTE"

text \<open>
  \<open>captureJPEG\<close> returns a \<open>bool\<close>; the model keeps which \<open>return false\<close> was
  taken. \<open>Inr ()\<close> is \<open>return true\<close>. The calls \<open>flush_fifo\<close>,
  \<open>clear_fifo_flag\<close>, \<open>start_capture\<close>, \<open>CS_LOW\<close>, \<open>set_fifo_burst\<close> and
  \<open>CS_HIGH\<close> act on the sensor and not on the members of \<open>CameraManager\<close>; what
  the sensor answers is given by the record above.
\<close>

datatype capture_error = Not_Available | Capture_Timeout | Invalid_JPEG_Size

definition TIMEOUT_MS :: UDOUBLE where "TIMEOUT_MS = 1000"
definition POLL_MS :: UDOUBLE where "POLL_MS = 1"

text \<open>
  The wait loop of \<open>captureJPEG\<close>; \<open>TIMEOUT_MS\<close> and \<open>POLL_MS\<close> name its
  literals 1000 and 1. The loop compares readings of the platform clock, and how far
  that clock moves during one round (the sensor read, the comparison, \<open>delay(1)\<close> and
  whatever else the core runs meanwhile) is not fixed by the program: it is the
  parameter \<open>round_ms\<close>, where \<open>round_ms t\<close> is the advance of the clock during a
  round that starts when it shows \<open>t\<close>. The loop need not end (a clock that stands
  still), so its result is an option and \<open>None\<close> stands for a loop that runs for
  ever. The result is \<open>Some (True, c)\<close> when the loop was left because the bit was
  set, and \<open>Some (False, c)\<close> when it was left through the timeout's
  \<open>return false\<close>.
\<close>

partial_function (option) wait_capture_done ::
    "(UDOUBLE \<Rightarrow> UDOUBLE) \<Rightarrow> sensor \<Rightarrow> UDOUBLE \<Rightarrow> camera \<Rightarrow> (bool \<times> camera) option" where
  "wait_capture_done round_ms sen startTime c =
     (if \<not> cap_done sen (clock c) then
        (if clock c - startTime > TIMEOUT_MS then Some (False, c)
         else wait_capture_done round_ms sen startTime (c\<lparr>clock := clock c + round_ms (clock c)\<rparr>))
      else Some (True, c))"

text \<open>The copy loop \<open>for (uint32_t i = 0; i < jpegLength; i++) jpegBuffer[i] = ...\<close>.\<close>

function read_fifo :: "sensor \<Rightarrow> UDOUBLE \<Rightarrow> UDOUBLE \<Rightarrow> UBYTE list \<Rightarrow> UBYTE list" where
  "read_fifo sen len i buf =
     (if i < len then read_fifo sen len (i + 1) (store buf (unat i) (fifo_data sen (unat i)))
      else buf)"
  by pat_completeness auto
termination
proof (relation "measure (\<lambda>(sen, len, i, buf). unat len - unat i)")
  show "wf (measure (\<lambda>(sen, len, i, buf). unat len - unat i))"
    by simp
next
  fix sen :: sensor and len i :: UDOUBLE and buf :: "UBYTE list"
  assume "i < len"
  then have "unat i < unat len"
    by (simp add: word_less_nat_alt)
  moreover from this have "unat (i + 1) = unat i + 1"
    using unsigned_less [of len, where 'a = nat] by (simp add: unat_word_ariths)
  ultimately show "((sen, len, i + 1, store buf (unat i) (fifo_data sen (unat i))),
      (sen, len, i, buf)) \<in> measure (\<lambda>(sen, len, i, buf). unat len - unat i)"
    by simp
qed

text \<open>\<open>captureJPEG\<close> returns when its wait loop does.\<close>

definition captureJPEG ::
    "(UDOUBLE \<Rightarrow> UDOUBLE) \<Rightarrow> sensor \<Rightarrow> camera \<Rightarrow> ((capture_error + unit) \<times> camera) option" where
  "captureJPEG round_ms sen c =
     (if \<not> isAvailable c then Some (Inl Not_Available, c)
      else
        let startTime = clock c
        in case wait_capture_done round_ms sen startTime c of
             None \<Rightarrow> None
           | Some (done, c1) \<Rightarrow>
               if \<not> done then Some (Inl Capture_Timeout, c1)
               else
                 let c2 = c1\<lparr>jpegLength := fifo_length sen\<rparr>
                 in if jpegLength c2 = 0 \<or> jpegLength c2 > MAX_JPEG_SIZE
                    then Some (Inl Invalid_JPEG_Size, c2)
                    else Some (Inr (), c2\<lparr>jpegBuffer :=
                           read_fifo sen (jpegLength c2) 0 (jpegBuffer c2)\<rparr>))"

text \<open>
  One call of the output callback by the decoder: \<open>int16_t x, y\<close> (read as signed),
  \<open>uint16_t w, h\<close>, and the pixel block behind \<open>uint16_t* bitmap\<close>.
\<close>

record block =
  blk_x :: UWORD
  blk_y :: UWORD
  blk_w :: UWORD
  blk_h :: UWORD
  bitmap :: "nat \<Rightarrow> UWORD"

text \<open>
  The loops of \<open>tjpgCallback\<close>. The counters \<open>row\<close> and \<open>col\<close> stay below \<open>h\<close>
  and \<open>w\<close>, so they are natural numbers here; \<open>y + row\<close> and \<open>x + col\<close> are
  computed in \<open>int\<close>, \<open>dstIdx\<close> is that \<open>int\<close> converted to \<open>uint32_t\<close>.
\<close>

definition dstIdx :: "block \<Rightarrow> nat \<Rightarrow> nat \<Rightarrow> UDOUBLE" where
  "dstIdx b row col =
     word_of_int (((sint (blk_y b) + int row) * int FRAME_WIDTH + (sint (blk_x b) + int col)) * 2)"

function tjpg_cols :: "block \<Rightarrow> nat \<Rightarrow> nat \<Rightarrow> UBYTE list \<Rightarrow> UBYTE list" where
  "tjpg_cols b row col fb =
     (if col < unat (blk_w b) then
        (if sint (blk_x b) + int col \<ge> int FRAME_WIDTH then fb
         else
           let pixel = bitmap b (row * unat (blk_w b) + col);
               fb1 = store fb (unat (dstIdx b row col)) (ucast (drop_bit 8 pixel));
               fb2 = store fb1 (unat (dstIdx b row col + 1)) (ucast (pixel AND 0xFF))
           in tjpg_cols b row (col + 1) fb2)
      else fb)"
  by pat_completeness auto
termination
  by (relation "measure (\<lambda>(b, row, col, fb). unat (blk_w b) - col)") auto

function tjpg_rows :: "block \<Rightarrow> nat \<Rightarrow> UBYTE list \<Rightarrow> UBYTE list" where
  "tjpg_rows b row fb =
     (if row < unat (blk_h b) then
        (if sint (blk_y b) + int row \<ge> int FRAME_HEIGHT then fb
         else tjpg_rows b (row + 1) (tjpg_cols b row 0 fb))
      else fb)"
  by pat_completeness auto
termination
  by (relation "measure (\<lambda>(b, row, fb). unat (blk_h b) - row)") auto

definition tjpgCallback :: "block \<Rightarrow> UBYTE list \<Rightarrow> UBYTE list" where
  "tjpgCallback b fb = tjpg_rows b 0 fb"

text \<open>\<open>memset(buf, 0, n)\<close> on an array.\<close>

definition memset_zero :: "UBYTE list \<Rightarrow> nat \<Rightarrow> UBYTE list" where
  "memset_zero buf n = replicate (min n (length buf)) 0 @ drop n buf"

definition JDR_OK :: UWORD where "JDR_OK = 0"

text \<open>
  \<open>TJpgDec.drawJpg\<close> belongs to a library outside the repository. It is the
  parameter \<open>drawJpg\<close>: from the compressed bytes and their length it gives the blocks
  it hands to the callback, in order, and its result code. The callback always returns
  true, so the decoder is never stopped by it.
\<close>

definition decodeToFrameBuffer ::
    "(UBYTE list \<Rightarrow> UDOUBLE \<Rightarrow> block list \<times> UWORD) \<Rightarrow> camera \<Rightarrow> bool \<times> camera" where
  "decodeToFrameBuffer drawJpg c =
     (if jpegLength c = 0 then (False, c)
      else
        let c1 = c\<lparr>frameBuffer := memset_zero (frameBuffer c) FRAME_BUFFER_SIZE\<rparr>;
            (blocks, result) = drawJpg (jpegBuffer c1) (jpegLength c1);
            c2 = c1\<lparr>frameBuffer := foldl (\<lambda>fb b. tjpgCallback b fb) (frameBuffer c1) blocks\<rparr>
        in if result \<noteq> JDR_OK then (False, c2) else (True, c2))"

text \<open>
  The state after static initialisation and a successful \<open>init\<close>: zeroed buffers,
  \<open>jpegLength = 0\<close>, the camera available.
\<close>

definition camera_ready :: camera where
  "camera_ready = \<lparr>isAvailable = True, jpegBuffer = replicate 32768 0, jpegLength = 0,
     frameBuffer = replicate FRAME_BUFFER_SIZE 0, clock = 0\<rparr>"

section \<open>Button requests (stitch\_cam\_v4/ui\_manager.h)\<close>

datatype CaptureMode = INSTANT | COUNTDOWN

text \<open>
  The flags \<open>captureRequested\<close> and \<open>modeToggleRequested\<close>, the function-local
  statics \<open>lastPress\<close> of \<open>checkCaptureButton\<close> and of \<open>checkModeButton\<close>
  (\<open>unsigned long\<close>, 32 bits on the ESP32), and \<open>currentMode\<close>.
\<close>

record ui =
  captureRequested :: bool
  modeToggleRequested :: bool
  lastPress_capture :: UDOUBLE
  lastPress_mode :: UDOUBLE
  currentMode :: CaptureMode

definition ui_init :: ui where
  "ui_init = \<lparr>captureRequested = False, modeToggleRequested = False,
     lastPress_capture = 0, lastPress_mode = 0, currentMode = INSTANT\<rparr>"

definition captureButtonISR :: "ui \<Rightarrow> ui" where
  "captureButtonISR s = s\<lparr>captureRequested := True\<rparr>"

definition modeButtonISR :: "ui \<Rightarrow> ui" where
  "modeButtonISR s = s\<lparr>modeToggleRequested := True\<rparr>"

text \<open>
  \<open>toggleMode\<close> flips \<open>currentMode\<close>; its LED and LCD feedback and its
  \<open>delay(300)\<close> go to collaborators and leave this state alone.
\<close>

definition toggleMode :: "ui \<Rightarrow> ui" where
  "toggleMode s =
     (if currentMode s = INSTANT then s\<lparr>currentMode := COUNTDOWN\<rparr>
      else s\<lparr>currentMode := INSTANT\<rparr>)"

text \<open>
  \<open>UIConfig::BUTTON_DEBOUNCE_MS\<close> is declared in a header that is not among the
  sources, so it is the parameter \<open>debounce\<close>; \<open>now\<close> is what \<open>millis()\<close> returns
  in the call. The subtraction is unsigned and wraps.
\<close>

definition checkCaptureButton :: "UDOUBLE \<Rightarrow> UDOUBLE \<Rightarrow> ui \<Rightarrow> bool \<times> ui" where
  "checkCaptureButton debounce now s =
     (if captureRequested s then
        (if now - lastPress_capture s > debounce
         then (True, s\<lparr>captureRequested := False, lastPress_capture := now\<rparr>)
         else (False, s\<lparr>captureRequested := False\<rparr>))
      else (False, s))"

definition checkModeButton :: "UDOUBLE \<Rightarrow> UDOUBLE \<Rightarrow> ui \<Rightarrow> bool \<times> ui" where
  "checkModeButton debounce now s =
     (if modeToggleRequested s then
        (if now - lastPress_mode s > debounce
         then (True, toggleMode (s\<lparr>modeToggleRequested := False, lastPress_mode := now\<rparr>))
         else (False, s\<lparr>modeToggleRequested := False\<rparr>))
      else (False, s))"

section \<open>Display driver (stitch\_cam\_v5/LCD\_Driver.cpp, LCD\_Driver.h)\<close>

definition LCD_WIDTH :: nat where "LCD_WIDTH = 240"
definition LCD_HEIGHT :: nat where "LCD_HEIGHT = 320"
definition HORIZONTAL :: bool where "HORIZONTAL = False"

definition LCD_WriteData_Byte :: "UBYTE \<Rightarrow> lcd \<Rightarrow> lcd" where
  "LCD_WriteData_Byte da s =
     emit [Digital_Write DEV_CS_PIN False, Digital_Write DEV_DC_PIN True,
           Begin_Transaction 60000000, Transfer da, End_Transaction,
           Digital_Write DEV_CS_PIN True] s"

definition LCD_WriteReg :: "UBYTE \<Rightarrow> lcd \<Rightarrow> lcd" where
  "LCD_WriteReg da s =
     emit [Digital_Write DEV_CS_PIN False, Digital_Write DEV_DC_PIN False,
           Begin_Transaction 60000000, Transfer da, End_Transaction,
           Digital_Write DEV_CS_PIN True] s"

text \<open>
  \<open>LCD_WriteData_Byte(Xstart >> 8)\<close> and \<open>LCD_WriteData_Byte(Xstart)\<close> convert
  their \<open>UWORD\<close> argument to \<open>UBYTE\<close>: the high byte, then the low byte.
\<close>

definition LCD_SetCursor :: "UWORD \<Rightarrow> UWORD \<Rightarrow> UWORD \<Rightarrow> UWORD \<Rightarrow> lcd \<Rightarrow> lcd" where
  "LCD_SetCursor Xstart Ystart Xend Yend s =
     LCD_WriteReg 0x2C
       (if HORIZONTAL then
          (LCD_WriteData_Byte (ucast Yend) (LCD_WriteData_Byte (ucast (drop_bit 8 Yend))
          (LCD_WriteData_Byte (ucast Ystart) (LCD_WriteData_Byte (ucast (drop_bit 8 Ystart))
          (LCD_WriteReg 0x2B
          (LCD_WriteData_Byte (ucast Xend) (LCD_WriteData_Byte (ucast (drop_bit 8 Xend))
          (LCD_WriteData_Byte (ucast Xstart) (LCD_WriteData_Byte (ucast (drop_bit 8 Xstart))
          (LCD_WriteReg 0x2A s))))))))))
        else
          (LCD_WriteData_Byte (ucast Yend) (LCD_WriteData_Byte (ucast (drop_bit 8 Yend))
          (LCD_WriteData_Byte (ucast Ystart) (LCD_WriteData_Byte (ucast (drop_bit 8 Ystart))
          (LCD_WriteReg 0x2B
          (LCD_WriteData_Byte (ucast Xend) (LCD_WriteData_Byte (ucast (drop_bit 8 Xend))
          (LCD_WriteData_Byte (ucast Xstart) (LCD_WriteData_Byte (ucast (drop_bit 8 Xstart))
          (LCD_WriteReg 0x2A s)))))))))))"

text \<open>
  \<open>LCD_ClearWindow\<close>, the branch under \<open>USE_DMA_TRANSFER\<close>. The size of the
  transfer buffer is the macro \<open>DMA_BUFFER_SIZE\<close>, 16384 in stitch\_cam\_v5 and
  8192 in LCD\_1inch9\_DMA; here it is the parameter \<open>n\<close>, an \<open>int\<close> constant in
  the source.

  The fill loop \<open>for (uint16_t i = 0; i < n; i += 2)\<close>: the counter is 16 bits wide
  and wraps, the comparison and \<open>i + 1\<close> are computed in \<open>int\<close>. The loop need not
  end (a counter that wraps before it reaches \<open>n\<close>), so its result is an option and
  \<open>None\<close> stands for a loop that runs for ever.
\<close>

partial_function (option) fill_dma ::
    "nat \<Rightarrow> UWORD \<Rightarrow> UBYTE \<Rightarrow> UBYTE \<Rightarrow> UBYTE list \<Rightarrow> UBYTE list option" where
  "fill_dma n i colorHigh colorLow buf =
     (if unat i < n
      then fill_dma n (i + 2) colorHigh colorLow
             (store (store buf (unat i) colorHigh) (unat i + 1) colorLow)
      else Some buf)"

text \<open>
  The send loop \<open>while (remaining > 0)\<close>; \<open>remaining\<close> and \<open>chunkSize\<close> are
  \<open>uint32_t\<close>, and \<open>n\<close> is converted to \<open>uint32_t\<close> for the comparison. With
  \<open>n = 0\<close> the loop does not end.
\<close>

partial_function (option) clear_loop :: "nat \<Rightarrow> UDOUBLE \<Rightarrow> lcd \<Rightarrow> lcd option" where
  "clear_loop n remaining s =
     (if remaining > 0
      then let chunkSize = (if remaining > of_nat n then of_nat n else remaining)
           in clear_loop n (remaining - chunkSize) (DEV_SPI_Write_DMA (dmaBuffer s) chunkSize s)
      else Some s)"

text \<open>
  \<open>Xend - Xstart\<close> is computed in \<open>int\<close> and converted to \<open>uint32_t\<close>;
  \<open>Xend - 1\<close> is converted back to \<open>UWORD\<close> for \<open>LCD_SetCursor\<close>.
\<close>

definition LCD_ClearWindow ::
    "nat \<Rightarrow> UWORD \<Rightarrow> UWORD \<Rightarrow> UWORD \<Rightarrow> UWORD \<Rightarrow> UWORD \<Rightarrow> lcd \<Rightarrow> lcd option" where
  "LCD_ClearWindow n Xstart Ystart Xend Yend color s =
     (let width = (word_of_int (uint Xend - uint Xstart) :: UDOUBLE);
          height = (word_of_int (uint Yend - uint Ystart) :: UDOUBLE);
          totalPixels = width * height;
          totalBytes = totalPixels * 2;
          s1 = LCD_SetCursor Xstart Ystart (Xend - 1) (Yend - 1) s;
          s2 = emit [Digital_Write DEV_CS_PIN False, Digital_Write DEV_DC_PIN True] s1;
          colorHigh = (ucast (drop_bit 8 color) :: UBYTE);
          colorLow = (ucast (color AND 0xFF) :: UBYTE)
      in case fill_dma n 0 colorHigh colorLow (dmaBuffer s2) of
           None \<Rightarrow> None
         | Some buf \<Rightarrow>
             (case clear_loop n totalBytes (s2\<lparr>dmaBuffer := buf\<rparr>) of
                None \<Rightarrow> None
              | Some s3 \<Rightarrow> Some (emit [Digital_Write DEV_CS_PIN True] s3)))"

text \<open>The bytes of one pixel on the bus, high byte first, and \<open>k\<close> pixels of one colour.\<close>

definition pixel_pair :: "UWORD \<Rightarrow> UBYTE list" where
  "pixel_pair color = [ucast (drop_bit 8 color), ucast (color AND 0xFF)]"

definition solid :: "nat \<Rightarrow> UWORD \<Rightarrow> UBYTE list" where
  "solid k color = concat (replicate k (pixel_pair color))"

section \<open>Frame display (stitch\_cam\_v4/lcd\_manager.h)\<close>

text \<open>
  \<open>displayFrame\<close>: \<open>totalBytes\<close> is \<open>FRAME_WIDTH * FRAME_HEIGHT * 2\<close> and
  \<open>chunkSize\<close> is \<open>DMA_BUFFER_SIZE\<close>, both \<open>uint32_t\<close>, as is \<open>offset\<close>.
  \<open>frameBuffer + offset\<close> is the buffer without its first \<open>offset\<close> bytes.
\<close>

definition totalBytes :: UDOUBLE where
  "totalBytes = of_nat (FRAME_WIDTH * FRAME_HEIGHT * 2)"

definition chunkSize :: UDOUBLE where
  "chunkSize = of_nat DMA_BUFFER_SIZE"



section \<open>Bulk session protocol\<close>

lemma pixel_bytes_append: "pixel_bytes (xs @ ys) = pixel_bytes xs @ pixel_bytes ys"
  by (induction xs rule: pixel_bytes.induct) simp_all

lemma bus_bytes_append: "bus_bytes (xs @ ys) = bus_bytes xs @ bus_bytes ys"
  by (induction xs rule: bus_bytes.induct) simp_all


lemma bulk_end_inactive: "\<not> bulk_active (DEV_SPI_Write_Bulk_End s)"
  by (simp add: DEV_SPI_Write_Bulk_End_def emit_def)

text \<open>
  C4. While no bulk session is active, \<open>DEV_SPI_Write_Bulk_Data\<close> returns the state it
  was given, for every buffer and length: nothing is put on the bus and there is no
  error path. No session is active in the initial state (before the first
  \<open>DEV_SPI_Write_Bulk_Start\<close>) and in every state that \<open>DEV_SPI_Write_Bulk_End\<close>
  returns.
\<close>

theorem bulk_data_without_session:
  "(\<not> bulk_active s \<longrightarrow> DEV_SPI_Write_Bulk_Data dat len s = s)
   \<and> DEV_SPI_Write_Bulk_Data dat len (lcd_init n) = lcd_init n
   \<and> DEV_SPI_Write_Bulk_Data dat len (DEV_SPI_Write_Bulk_End s) = DEV_SPI_Write_Bulk_End s"
  by (simp add: DEV_SPI_Write_Bulk_Data_def bulk_end_inactive) (simp add: lcd_init_def)

theorem bulk_data_without_session_witness:
  "\<not> bulk_active (lcd_init 4)
   \<and> DEV_SPI_Write_Bulk_Data [1, 2, 3] 3 (lcd_init 4) = lcd_init 4
   \<and> trace (DEV_SPI_Write_Bulk_Data [1, 2, 3] 3
        (DEV_SPI_Write_Bulk_End (DEV_SPI_Write_Bulk_Start (lcd_init 4))))
       = trace (DEV_SPI_Write_Bulk_End (DEV_SPI_Write_Bulk_Start (lcd_init 4)))"
proof -
  have n: "\<not> bulk_active (lcd_init 4)"
    by (simp add: lcd_init_def)
  have "DEV_SPI_Write_Bulk_Data [1, 2, 3] 3 (lcd_init 4) = lcd_init 4"
    using bulk_data_without_session [where s = "lcd_init 4"] n by blast
  moreover have "DEV_SPI_Write_Bulk_Data [1, 2, 3] 3
        (DEV_SPI_Write_Bulk_End (DEV_SPI_Write_Bulk_Start (lcd_init 4)))
       = DEV_SPI_Write_Bulk_End (DEV_SPI_Write_Bulk_Start (lcd_init 4))"
    using bulk_data_without_session [where s = "DEV_SPI_Write_Bulk_Start (lcd_init 4)"]
    by blast
  ultimately show ?thesis using n by simp
qed

text \<open>
  C7, as the code has it. \<open>DEV_SPI_Write_Bulk_End\<close> is idempotent: the second of two
  calls in a row changes nothing, and the session is inactive afterwards. The two calls
  together end the transaction and raise chip-select once when a session was active, and
  not at all when none was.
\<close>

theorem bulk_end_twice:
  "DEV_SPI_Write_Bulk_End (DEV_SPI_Write_Bulk_End s) = DEV_SPI_Write_Bulk_End s
   \<and> \<not> bulk_active (DEV_SPI_Write_Bulk_End (DEV_SPI_Write_Bulk_End s))
   \<and> trace (DEV_SPI_Write_Bulk_End (DEV_SPI_Write_Bulk_End s)) =
       trace s @ (if bulk_active s then [End_Transaction, Digital_Write DEV_CS_PIN True] else [])
   \<and> cs_raised (trace (DEV_SPI_Write_Bulk_End (DEV_SPI_Write_Bulk_End s))) =
       cs_raised (trace s) + (if bulk_active s then 1 else 0)"
  by (simp add: DEV_SPI_Write_Bulk_End_def emit_def cs_raised_def)

theorem bulk_end_twice_witness:
  "cs_raised (trace (DEV_SPI_Write_Bulk_End (DEV_SPI_Write_Bulk_End
      (DEV_SPI_Write_Bulk_Start (lcd_init 4))))) = 1"
proof -
  let ?s = "DEV_SPI_Write_Bulk_Start (lcd_init 4)"
  have "cs_raised (trace (DEV_SPI_Write_Bulk_End (DEV_SPI_Write_Bulk_End ?s))) =
          cs_raised (trace ?s) + (if bulk_active ?s then 1 else 0)"
    using bulk_end_twice [of ?s] by blast
  then show ?thesis
    by (simp add: DEV_SPI_Write_Bulk_Start_def lcd_init_def emit_def cs_raised_def)
qed

text \<open>
  C7 as stated asks for exactly one de-assertion from any state. From a state with no
  active session, two calls in a row put nothing on the bus.
\<close>

theorem bulk_end_twice_counterexample:
  "cs_raised (trace (DEV_SPI_Write_Bulk_End (DEV_SPI_Write_Bulk_End (lcd_init 4)))) = 0
   \<and> trace (DEV_SPI_Write_Bulk_End (DEV_SPI_Write_Bulk_End (lcd_init 4))) = []"
  by (simp add: DEV_SPI_Write_Bulk_End_def lcd_init_def cs_raised_def)

section \<open>Solid fill\<close>

lemma pixel_bytes_LCD_SetCursor:
  "pixel_bytes (trace (LCD_SetCursor a b c d s)) = pixel_bytes (trace s)"
  by (simp add: LCD_SetCursor_def LCD_WriteReg_def LCD_WriteData_Byte_def emit_def
      pixel_bytes_append)

lemma dmaBuffer_LCD_SetCursor: "dmaBuffer (LCD_SetCursor a b c d s) = dmaBuffer s"
  by (simp add: LCD_SetCursor_def LCD_WriteReg_def LCD_WriteData_Byte_def emit_def)

lemma length_solid: "length (solid k color) = 2 * k"
  by (induction k) (simp_all add: solid_def pixel_pair_def)

lemma solid_add: "solid (a + b) color = solid a color @ solid b color"
  by (simp add: solid_def replicate_add)

lemma solid_Suc: "solid (Suc k) color = solid k color @ pixel_pair color"
  using solid_add [of k 1 color] by (simp add: solid_def)

lemma take_solid: "k \<le> j \<Longrightarrow> take (2 * k) (solid j color) = solid k color"
proof -
  assume "k \<le> j"
  then have "solid j color = solid k color @ solid (j - k) color"
    using solid_add [of k "j - k" color] by simp
  then show ?thesis by (simp add: length_solid)
qed

lemma take_two_updates:
  "Suc m < length xs \<Longrightarrow> take (Suc (Suc m)) (xs[m := a, Suc m := b]) = take m xs @ [a, b]"
  by (simp add: take_Suc_conv_app_nth)

lemma fill_dma_from:
  assumes n: "even n" "n \<le> 65534"
  shows "length buf = n \<Longrightarrow> 2 * k \<le> n \<Longrightarrow> take (2 * k) buf = solid k color \<Longrightarrow>
     fill_dma n (of_nat (2 * k)) (ucast (drop_bit 8 color)) (ucast (color AND 0xFF)) buf
       = Some (solid (n div 2) color)"
proof (induction "n div 2 - k" arbitrary: k buf)
  case 0
  with n have k: "2 * k = n" by presburger
  then have "unat (of_nat (2 * k) :: UWORD) = n"
    using n by (simp add: unat_of_nat)
  moreover have "buf = solid (n div 2) color"
  proof -
    have "take (2 * k) buf = buf"
      using "0.prems"(1) k by simp
    moreover have "k = n div 2"
      using k by auto
    ultimately show ?thesis
      using "0.prems"(3) by simp
  qed
  ultimately show ?case
    by (subst fill_dma.simps) simp
next
  case (Suc d)
  with n have k: "2 * k + 2 \<le> n" by presburger
  then have "2 * k < 2 ^ 16"
    using n by simp
  then have u: "unat (of_nat (2 * k) :: UWORD) = 2 * k"
    by (subst unat_of_nat) simp
  let ?buf = "buf[2 * k := ucast (drop_bit 8 color), Suc (2 * k) := ucast (color AND 0xFF)]"
  have st: "store (store buf (2 * k) (ucast (drop_bit 8 color))) (2 * k + 1) (ucast (color AND 0xFF))
      = ?buf"
    using k Suc.prems by (simp add: store_def)
  have nx: "(of_nat (2 * k) :: UWORD) + 2 = of_nat (2 * Suc k)"
    by simp
  have "take (2 * Suc k) ?buf = take (2 * k) buf @ pixel_pair color"
    using take_two_updates [of "2 * k" buf] k Suc.prems by (simp add: pixel_pair_def)
  then have tk: "take (2 * Suc k) ?buf = solid (Suc k) color"
    using Suc.prems by (simp add: solid_Suc)
  have "fill_dma n (of_nat (2 * Suc k)) (ucast (drop_bit 8 color)) (ucast (color AND 0xFF)) ?buf
      = Some (solid (n div 2) color)"
  proof (rule Suc.hyps(1))
    show "d = n div 2 - Suc k" using Suc.hyps(2) by simp
    show "length ?buf = n" using Suc.prems by simp
    show "2 * Suc k \<le> n" using k by simp
    show "take (2 * Suc k) ?buf = solid (Suc k) color" by (rule tk)
  qed
  then show ?case
    using k by (subst fill_dma.simps) (simp only: u st nx, simp)
qed

lemma fill_dma_solid:
  assumes "even n" "n \<le> 65534" "length buf = n"
  shows "fill_dma n 0 (ucast (drop_bit 8 color)) (ucast (color AND 0xFF)) buf
       = Some (solid (n div 2) color)"
  using fill_dma_from [OF assms(1,2,3), of 0 color] by (simp add: solid_def)

lemma clear_loop_solid:
  assumes n: "even n" "0 < n" "n \<le> 65534"
  shows "dmaBuffer s = solid (n div 2) color \<Longrightarrow> unat remaining = 2 * m \<Longrightarrow>
     \<exists>s' es. clear_loop n remaining s = Some s'
        \<and> trace s' = trace s @ es \<and> pixel_bytes es = solid m color
        \<and> bus_bytes es = solid m color
        \<and> dmaBuffer s' = dmaBuffer s \<and> bulk_active s' = bulk_active s"
proof (induction m arbitrary: remaining s rule: less_induct)
  case (less m)
  show ?case
  proof (cases "m = 0")
    case True
    then have "remaining = 0"
      using less.prems by (simp add: unat_eq_0)
    then show ?thesis
      using True by (subst clear_loop.simps) (simp add: solid_def)
  next
    case False
    then have pos: "remaining > 0"
      using less.prems by (simp add: word_less_nat_alt)
    define chunk :: UDOUBLE where
      "chunk = (if remaining > of_nat n then of_nat n else remaining)"
    have un: "unat (of_nat n :: UDOUBLE) = n"
      using n by (simp add: unat_of_nat)
    have uc: "unat chunk = min n (2 * m)"
      using less.prems un by (auto simp: chunk_def word_less_nat_alt)
    define c where "c = min (n div 2) m"
    have c2: "unat chunk = 2 * c"
      using uc n by (auto simp: c_def min_def)
    have cpos: "0 < c" and cm: "c \<le> m" and cn: "c \<le> n div 2"
      using n False by (auto simp: c_def)
    have cz: "chunk \<noteq> 0"
      using c2 cpos by (auto simp: unat_eq_0 [symmetric])
    have le: "chunk \<le> remaining"
      using c2 cm less.prems by (simp add: word_le_nat_alt)
    let ?s1 = "DEV_SPI_Write_DMA (dmaBuffer s) chunk s"
    have s1: "?s1 = emit [Begin_Transaction 80000000, Write_Bytes (solid c color),
        End_Transaction] s"
      using cz c2 cn less.prems by (simp add: DEV_SPI_Write_DMA_def take_solid)
    have "unat (remaining - chunk) = 2 * (m - c)"
      using le c2 less.prems by (simp add: unat_sub)
    moreover have "dmaBuffer ?s1 = solid (n div 2) color"
      unfolding s1 using less.prems(1) by (simp add: emit_def)
    moreover have "m - c < m"
      using cpos cm by simp
    ultimately obtain s' es where s': "clear_loop n (remaining - chunk) ?s1 = Some s'"
        "trace s' = trace ?s1 @ es" "pixel_bytes es = solid (m - c) color"
        "dmaBuffer s' = dmaBuffer ?s1" "bulk_active s' = bulk_active ?s1"
        "bus_bytes es = solid (m - c) color"
      using less.IH [of "m - c" ?s1 "remaining - chunk"] by blast
    let ?es = "[Begin_Transaction 80000000, Write_Bytes (solid c color), End_Transaction] @ es"
    have "clear_loop n remaining s = clear_loop n (remaining - chunk) ?s1"
      using pos by (subst clear_loop.simps) (simp add: chunk_def Let_def)
    moreover have "trace s' = trace s @ ?es"
      using s'(2) unfolding s1 by (simp add: emit_def)
    moreover have "pixel_bytes ?es = solid m color"
      using solid_add [of c "m - c" color] cm s'(3) by simp
    moreover have "bus_bytes ?es = solid m color"
      using solid_add [of c "m - c" color] cm s'(6) by simp
    moreover have "dmaBuffer ?s1 = dmaBuffer s" "bulk_active ?s1 = bulk_active s"
      unfolding s1 by (simp_all add: emit_def)
    ultimately show ?thesis
      using s'(1,4,5) by metis
  qed
qed

lemma unat_extent:
  fixes a b :: UWORD
  assumes "a \<le> b"
  shows "unat (word_of_int (uint b - uint a) :: UDOUBLE) = unat b - unat a"
proof -
  have "uint b - uint a = int (unat b - unat a)"
    using assms by (simp add: word_le_nat_alt)
  moreover have "unat b - unat a < 2 ^ 32"
    using unsigned_less [of b, where 'a = nat] by simp
  ultimately show ?thesis
    by (simp add: unat_of_nat)
qed

lemma unat_totalBytes:
  fixes w h :: UDOUBLE
  assumes "unat w \<le> 240" "unat h \<le> 320"
  shows "unat (w * h * 2) = 2 * (unat w * unat h)"
proof -
  define p where "p = unat w * unat h"
  have "p \<le> 240 * 320"
    unfolding p_def using assms by (rule mult_le_mono)
  then have "p < 2 ^ 32" and "p * 2 < 2 ^ 32"
    by simp_all
  then have "unat (w * h) = p" and "unat (w * h * 2) = p * 2"
    by (simp_all add: unat_word_ariths p_def [symmetric])
  then show ?thesis
    by (simp add: p_def)
qed

lemma LCD_ClearWindow_solid:
  assumes n: "even n" "0 < n" "n \<le> 65534" and buf: "length (dmaBuffer s) = n"
    and x: "Xstart \<le> Xend" "unat Xend \<le> LCD_WIDTH"
    and y: "Ystart \<le> Yend" "unat Yend \<le> LCD_HEIGHT"
  shows "\<exists>s' es. LCD_ClearWindow n Xstart Ystart Xend Yend color s = Some s'
     \<and> trace s' = trace (LCD_SetCursor Xstart Ystart (Xend - 1) (Yend - 1) s) @ es
     \<and> pixel_bytes es = solid ((unat Xend - unat Xstart) * (unat Yend - unat Ystart)) color
     \<and> bus_bytes es = pixel_bytes es"
proof -
  let ?w = "word_of_int (uint Xend - uint Xstart) :: UDOUBLE"
  let ?h = "word_of_int (uint Yend - uint Ystart) :: UDOUBLE"
  let ?s1 = "LCD_SetCursor Xstart Ystart (Xend - 1) (Yend - 1) s"
  let ?s2 = "emit [Digital_Write DEV_CS_PIN False, Digital_Write DEV_DC_PIN True] ?s1"
  let ?s2' = "?s2\<lparr>dmaBuffer := solid (n div 2) color\<rparr>"
  have w: "unat ?w = unat Xend - unat Xstart" and h: "unat ?h = unat Yend - unat Ystart"
    by (rule unat_extent [OF x(1)], rule unat_extent [OF y(1)])
  have "unat (?w * ?h * 2) = 2 * ((unat Xend - unat Xstart) * (unat Yend - unat Ystart))"
    using unat_totalBytes [of ?w ?h] w h x y by (simp add: LCD_WIDTH_def LCD_HEIGHT_def)
  moreover have "dmaBuffer ?s2' = solid (n div 2) color"
    by simp
  ultimately obtain s' es where s': "clear_loop n (?w * ?h * 2) ?s2' = Some s'"
      "trace s' = trace ?s2' @ es"
      "pixel_bytes es = solid ((unat Xend - unat Xstart) * (unat Yend - unat Ystart)) color"
      "bus_bytes es = solid ((unat Xend - unat Xstart) * (unat Yend - unat Ystart)) color"
    using clear_loop_solid [OF n, of ?s2' color "?w * ?h * 2"] by blast
  let ?es = "[Digital_Write DEV_CS_PIN False, Digital_Write DEV_DC_PIN True] @ es
     @ [Digital_Write DEV_CS_PIN True]"
  have f: "fill_dma n 0 (ucast (drop_bit 8 color)) (ucast (color AND 0xFF)) (dmaBuffer ?s2)
      = Some (solid (n div 2) color)"
    using fill_dma_solid [OF n(1) n(3)] buf by (simp add: emit_def dmaBuffer_LCD_SetCursor)
  have "LCD_ClearWindow n Xstart Ystart Xend Yend color s
      = Some (emit [Digital_Write DEV_CS_PIN True] s')"
    unfolding LCD_ClearWindow_def Let_def f using s'(1) by simp
  moreover have "trace (emit [Digital_Write DEV_CS_PIN True] s') = trace ?s1 @ ?es"
    using s'(2) by (simp add: emit_def)
  moreover have "pixel_bytes ?es
      = solid ((unat Xend - unat Xstart) * (unat Yend - unat Ystart)) color"
    using s'(3) by (simp add: pixel_bytes_append)
  moreover have "bus_bytes ?es = pixel_bytes ?es"
    using s'(3,4) by (simp add: pixel_bytes_append bus_bytes_append)
  ultimately show ?thesis by blast
qed

text \<open>
  C1, as the code has it. \<open>LCD_ClearWindow\<close> counts its end coordinates out: it
  sets the address window to columns \<open>Xstart\<close> to \<open>Xend - 1\<close> and rows
  \<open>Ystart\<close> to \<open>Yend - 1\<close>. For \<open>Xstart \<le> Xend \<le> LCD_WIDTH\<close> and
  \<open>Ystart \<le> Yend \<le> LCD_HEIGHT\<close>, every colour, and every even transfer-buffer
  size from 2 to 65534 (whether or not it divides the byte count), the call returns, and
  the bytes it puts on the bus after the address window are \<open>W * H\<close> times the
  colour, high byte first, with \<open>W = Xend - Xstart\<close> and \<open>H = Yend - Ystart\<close>:
  exactly \<open>W * H * 2\<close> bytes.
\<close>

theorem clear_window_exact:
  assumes "even n" "0 < n" "n \<le> 65534" "length (dmaBuffer s) = n"
    and "Xstart \<le> Xend" "unat Xend \<le> LCD_WIDTH"
    and "Ystart \<le> Yend" "unat Yend \<le> LCD_HEIGHT"
  shows "\<exists>s' es. LCD_ClearWindow n Xstart Ystart Xend Yend color s = Some s'
     \<and> trace s' = trace (LCD_SetCursor Xstart Ystart (Xend - 1) (Yend - 1) s) @ es
     \<and> pixel_bytes es
         = concat (replicate ((unat Xend - unat Xstart) * (unat Yend - unat Ystart))
             [ucast (drop_bit 8 color), ucast (color AND 0xFF)])
     \<and> bus_bytes es = pixel_bytes es
     \<and> length (pixel_bytes es) = (unat Xend - unat Xstart) * (unat Yend - unat Ystart) * 2"
proof -
  obtain s' es where "LCD_ClearWindow n Xstart Ystart Xend Yend color s = Some s'"
      "trace s' = trace (LCD_SetCursor Xstart Ystart (Xend - 1) (Yend - 1) s) @ es"
      "pixel_bytes es = solid ((unat Xend - unat Xstart) * (unat Yend - unat Ystart)) color"
      "bus_bytes es = pixel_bytes es"
    using LCD_ClearWindow_solid [OF assms] by blast
  moreover from this have "length (pixel_bytes es)
      = (unat Xend - unat Xstart) * (unat Yend - unat Ystart) * 2"
    by (simp add: length_solid)
  ultimately show ?thesis
    unfolding solid_def pixel_pair_def by blast
qed

theorem clear_window_exact_witness:
  "\<exists>s' es. LCD_ClearWindow DMA_BUFFER_SIZE 10 20 110 70 0xF800 (lcd_init DMA_BUFFER_SIZE) = Some s'
     \<and> trace s' = trace (LCD_SetCursor 10 20 109 69 (lcd_init DMA_BUFFER_SIZE)) @ es
     \<and> pixel_bytes es = concat (replicate 5000 [0xF8, 0])
     \<and> bus_bytes es = pixel_bytes es
     \<and> length (pixel_bytes es) = 10000"
proof -
  have "even DMA_BUFFER_SIZE" "0 < DMA_BUFFER_SIZE" "DMA_BUFFER_SIZE \<le> 65534"
    "length (dmaBuffer (lcd_init DMA_BUFFER_SIZE)) = DMA_BUFFER_SIZE"
    by (simp_all add: DMA_BUFFER_SIZE_def lcd_init_def)
  moreover have "(10 :: UWORD) \<le> 110" "unat (110 :: UWORD) \<le> LCD_WIDTH"
    "(20 :: UWORD) \<le> 70" "unat (70 :: UWORD) \<le> LCD_HEIGHT"
    by (simp_all add: LCD_WIDTH_def LCD_HEIGHT_def)
  ultimately show ?thesis
    using clear_window_exact [where n = DMA_BUFFER_SIZE and s = "lcd_init DMA_BUFFER_SIZE"
        and Xstart = 10 and Xend = 110 and Ystart = 20 and Yend = 70 and color = "0xF800"]
    by simp
qed

text \<open>
  C1 as stated speaks of a window \<open>x0 \<le> x1\<close>, \<open>y0 \<le> y1\<close> and of every chunk-buffer
  size. First, with the source's buffer size, the window from (5, 5) to (5, 5): counted
  with its ends in, it holds one pixel, and \<open>LCD_ClearWindow\<close> sends no pixel data for
  it. Second, with a buffer of 3 bytes, the 2 by 2 window from (0, 0) to (2, 2) in
  colour 0x1234: the fill loop writes its last low byte past the buffer, every chunk
  starts again at the buffer's first byte, eight bytes are sent, and the second and
  third pairs are not the colour.
\<close>

theorem clear_window_exact_counterexample:
  "map_option (\<lambda>s'. pixel_bytes (trace s'))
       (LCD_ClearWindow DMA_BUFFER_SIZE 5 5 5 5 0xF800 (lcd_init DMA_BUFFER_SIZE))
     = Some []
   \<and> map_option (\<lambda>s'. pixel_bytes (trace s')) (LCD_ClearWindow 3 0 0 2 2 0x1234 (lcd_init 3))
     = Some [0x12, 0x34, 0x12, 0x12, 0x34, 0x12, 0x12, 0x34]"
proof -
  have "even DMA_BUFFER_SIZE" "0 < DMA_BUFFER_SIZE" "DMA_BUFFER_SIZE \<le> 65534"
    "length (dmaBuffer (lcd_init DMA_BUFFER_SIZE)) = DMA_BUFFER_SIZE"
    by (simp_all add: DMA_BUFFER_SIZE_def lcd_init_def)
  moreover have "(5 :: UWORD) \<le> 5" "unat (5 :: UWORD) \<le> LCD_WIDTH" "unat (5 :: UWORD) \<le> LCD_HEIGHT"
    by (simp_all add: LCD_WIDTH_def LCD_HEIGHT_def)
  ultimately obtain s' es where
      "LCD_ClearWindow DMA_BUFFER_SIZE 5 5 5 5 0xF800 (lcd_init DMA_BUFFER_SIZE) = Some s'"
      "trace s' = trace (LCD_SetCursor 5 5 (5 - 1) (5 - 1) (lcd_init DMA_BUFFER_SIZE)) @ es"
      "pixel_bytes es = solid ((unat (5 :: UWORD) - unat (5 :: UWORD))
         * (unat (5 :: UWORD) - unat (5 :: UWORD))) 0xF800"
    using LCD_ClearWindow_solid [where n = DMA_BUFFER_SIZE and s = "lcd_init DMA_BUFFER_SIZE"
        and Xstart = 5 and Xend = 5 and Ystart = 5 and Yend = 5 and color = "0xF800"]
    by blast
  then have a: "map_option (\<lambda>s'. pixel_bytes (trace s'))
       (LCD_ClearWindow DMA_BUFFER_SIZE 5 5 5 5 0xF800 (lcd_init DMA_BUFFER_SIZE)) = Some []"
    by (simp add: pixel_bytes_append pixel_bytes_LCD_SetCursor lcd_init_def solid_def)
  have i: "lcd_init 3 = \<lparr>bulk_active = False, dmaBuffer = [0, 0, 0], trace = []\<rparr>"
    by (simp add: lcd_init_def numeral_eq_Suc)
  have f: "fill_dma 3 0 0x12 0x34 [0, 0, 0] = Some [0x12, 0x34, 0x12]"
    by (simp add: fill_dma.simps store_def)
  have hi: "(ucast (drop_bit 8 (0x1234 :: UWORD)) :: UBYTE) = 0x12"
    and lo: "(ucast ((0x1234 :: UWORD) AND 0xFF) :: UBYTE) = 0x34"
    by simp_all
  have b: "map_option (\<lambda>s'. pixel_bytes (trace s')) (LCD_ClearWindow 3 0 0 2 2 0x1234 (lcd_init 3))
      = Some [0x12, 0x34, 0x12, 0x12, 0x34, 0x12, 0x12, 0x34]"
    unfolding i
    by (simp add: LCD_ClearWindow_def Let_def f hi lo dmaBuffer_LCD_SetCursor emit_def
        clear_loop.simps DEV_SPI_Write_DMA_def pixel_bytes_append pixel_bytes_LCD_SetCursor)
  from a b show ?thesis by simp
qed

section \<open>Frame display\<close>











section \<open>Capture\<close>

declare read_fifo.simps [simp del]
declare tjpg_cols.simps [simp del]
declare tjpg_rows.simps [simp del]

text \<open>The wait loop changes the clock and nothing else, whatever the clock does.\<close>

lemma wait_capture_done_frame:
  assumes "wait_capture_done round_ms sen startTime c = Some y"
  shows "jpegBuffer (snd y) = jpegBuffer c \<and> jpegLength (snd y) = jpegLength c
     \<and> frameBuffer (snd y) = frameBuffer c \<and> isAvailable (snd y) = isAvailable c"
proof (rule wait_capture_done.raw_induct [where P = "\<lambda>round_ms sen startTime c y.
    jpegBuffer (snd y) = jpegBuffer c \<and> jpegLength (snd y) = jpegLength c
     \<and> frameBuffer (snd y) = frameBuffer c \<and> isAvailable (snd y) = isAvailable c",
    OF _ assms], goal_cases)
  case (1 wait round_ms sen startTime c y)
  show ?case
  proof (cases "\<not> cap_done sen (clock c) \<and> \<not> clock c - startTime > TIMEOUT_MS")
    case True
    then have "wait round_ms sen startTime (c\<lparr>clock := clock c + round_ms (clock c)\<rparr>) = Some y"
      using 1(2) by simp
    from 1(1) [OF this] show ?thesis by simp
  next
    case False
    then have "snd y = c"
      using 1(2) by (auto split: if_splits)
    then show ?thesis by simp
  qed
qed

text \<open>
  When every round moves the clock by at least 1 ms and at most \<open>R\<close> ms, the loop
  ends: with the bit set, or through the timeout with more than 1000 ms and at most
  \<open>1000 + R\<close> ms gone since \<open>startTime\<close>.
\<close>

lemma wait_capture_done_returns:
  assumes rounds: "\<forall>t. 1 \<le> round_ms t \<and> round_ms t \<le> R"
    and nowrap: "unat R + 1000 < 2 ^ 32"
  shows "unat (clock c - startTime) \<le> 1000 + unat R \<Longrightarrow>
     \<exists>d c'. wait_capture_done round_ms sen startTime c = Some (d, c')
        \<and> (d \<longrightarrow> cap_done sen (clock c'))
        \<and> (\<not> d \<longrightarrow> 1000 < unat (clock c' - startTime)
              \<and> unat (clock c' - startTime) \<le> 1000 + unat R)"
proof (induction "1001 - unat (clock c - startTime)" arbitrary: c rule: less_induct)
  case less
  let ?e = "unat (clock c - startTime)"
  show ?case
  proof (cases "cap_done sen (clock c)")
    case True
    then have "wait_capture_done round_ms sen startTime c = Some (True, c)"
      by (subst wait_capture_done.simps) simp
    with True show ?thesis
      by (intro exI [of _ True] exI [of _ c]) simp
  next
    case notdone: False
    show ?thesis
    proof (cases "clock c - startTime > TIMEOUT_MS")
      case True
      then have "wait_capture_done round_ms sen startTime c = Some (False, c)"
        using notdone by (subst wait_capture_done.simps) simp
      moreover have "1000 < ?e"
        using True by (simp add: TIMEOUT_MS_def word_less_nat_alt)
      ultimately show ?thesis
        using less.prems by (intro exI [of _ False] exI [of _ c]) simp
    next
      case False
      then have e: "?e \<le> 1000"
        by (simp add: TIMEOUT_MS_def word_less_nat_alt)
      let ?a = "round_ms (clock c)"
      let ?c = "c\<lparr>clock := clock c + ?a\<rparr>"
      have a: "1 \<le> unat ?a" "unat ?a \<le> unat R"
        using rounds by (simp_all add: word_le_nat_alt)
      have "clock ?c - startTime = (clock c - startTime) + ?a"
        by simp
      then have "unat (clock ?c - startTime) = unat ((clock c - startTime) + ?a)"
        by (rule arg_cong)
      also have "\<dots> = ?e + unat ?a"
        using e a nowrap by (simp add: unat_word_ariths)
      finally have step: "unat (clock ?c - startTime) = ?e + unat ?a" .
      have "\<exists>d c'. wait_capture_done round_ms sen startTime ?c = Some (d, c')
          \<and> (d \<longrightarrow> cap_done sen (clock c'))
          \<and> (\<not> d \<longrightarrow> 1000 < unat (clock c' - startTime)
                \<and> unat (clock c' - startTime) \<le> 1000 + unat R)"
      proof (rule less.hyps)
        show "1001 - unat (clock ?c - startTime) < 1001 - ?e"
          using step e a by simp
        show "unat (clock ?c - startTime) \<le> 1000 + unat R"
          using step e a by simp
      qed
      moreover have "wait_capture_done round_ms sen startTime c
          = wait_capture_done round_ms sen startTime ?c"
        using notdone False by (subst wait_capture_done.simps) simp
      ultimately show ?thesis by simp
    qed
  qed
qed

text \<open>
  With the bit never set and every round moving the clock by the same \<open>r\<close> ms, the
  loop that has made \<open>k\<close> rounds goes on to round \<open>1000 div r + 1\<close> and leaves
  through the timeout there.
\<close>

lemma wait_capture_done_steady:
  assumes never: "\<forall>t. \<not> cap_done sen t"
    and steady: "\<forall>t. round_ms t = of_nat r"
    and r: "0 < r" "r \<le> 1001"
  shows "k \<le> 1000 div r + 1 \<Longrightarrow> clock c = startTime + of_nat (k * r) \<Longrightarrow>
         wait_capture_done round_ms sen startTime c
           = Some (False, c\<lparr>clock := startTime + of_nat ((1000 div r + 1) * r)\<rparr>)"
proof (induction "1000 div r + 1 - k" arbitrary: k c)
  case 0
  then have k: "k = 1000 div r + 1" by simp
  then have "1000 < k * r"
    using r(1) by (simp add: div_less_iff_less_mult [symmetric] del: mult_Suc)
  moreover have "k * r \<le> 1000 + r"
    using k r(1) by simp
  then have "unat (of_nat (k * r) :: UDOUBLE) = k * r"
    using r(2) by (subst unat_of_nat) simp
  moreover have "clock c - startTime = of_nat (k * r)"
    using "0.prems" by simp
  ultimately have "clock c - startTime > TIMEOUT_MS"
    by (simp add: TIMEOUT_MS_def word_less_nat_alt del: of_nat_mult)
  moreover have "c\<lparr>clock := startTime + of_nat ((1000 div r + 1) * r)\<rparr> = c"
    using "0.prems" k by simp
  ultimately show ?case
    using never by (subst wait_capture_done.simps) simp
next
  case (Suc n)
  then have k: "k \<le> 1000 div r" by simp
  then have le: "k * r \<le> 1000"
    using r(1) by (simp add: less_eq_div_iff_mult_less_eq)
  then have "unat (of_nat (k * r) :: UDOUBLE) = k * r"
    by (subst unat_of_nat) simp
  moreover have "clock c - startTime = of_nat (k * r)"
    using Suc.prems by simp
  ultimately have "\<not> clock c - startTime > TIMEOUT_MS"
    using le by (simp add: TIMEOUT_MS_def word_less_nat_alt del: of_nat_mult)
  then have "wait_capture_done round_ms sen startTime c =
      wait_capture_done round_ms sen startTime (c\<lparr>clock := clock c + of_nat r\<rparr>)"
    using never steady by (subst wait_capture_done.simps) simp
  also have "\<dots> = Some (False, c\<lparr>clock := clock c + of_nat r,
      clock := startTime + of_nat ((1000 div r + 1) * r)\<rparr>)"
  proof (rule Suc.hyps(1))
    show "n = 1000 div r + 1 - Suc k" using Suc.hyps(2) by simp
    show "Suc k \<le> 1000 div r + 1" using k by simp
    show "clock (c\<lparr>clock := clock c + of_nat r\<rparr>) = startTime + of_nat (Suc k * r)"
      using Suc.prems by simp
  qed
  finally show ?case by simp
qed

text \<open>
  C5, as the code has it. The program fixes the timeout test (more than 1000 ms gone
  since \<open>startTime\<close>) and not how long a round of the loop takes on the clock. On an
  available camera whose capture-done bit is never set, when every round moves the
  clock by at least 1 ms and at most \<open>R\<close> ms (with \<open>TIMEOUT_MS + R\<close> inside the
  32 bits of the clock), \<open>captureJPEG\<close> returns through the timeout, with more than
  \<open>TIMEOUT_MS\<close> and at most \<open>TIMEOUT_MS + R\<close> gone. When
  every round takes exactly the poll interval of 1 ms, that is
  \<open>TIMEOUT_MS + POLL_MS\<close> = 1001 ms: not less than the timeout and not more than
  the timeout plus one poll interval. On a camera marked unavailable it returns failure
  at once, without polling.
\<close>

theorem capture_timeout:
  "(isAvailable c \<and> (\<forall>t. \<not> cap_done sen t) \<and> (\<forall>t. 1 \<le> round_ms t \<and> round_ms t \<le> R)
      \<and> TIMEOUT_MS \<le> TIMEOUT_MS + R \<longrightarrow>
      (\<exists>c'. captureJPEG round_ms sen c = Some (Inl Capture_Timeout, c')
         \<and> TIMEOUT_MS < clock c' - clock c
         \<and> clock c' - clock c \<le> TIMEOUT_MS + R))
   \<and> (isAvailable c \<and> (\<forall>t. \<not> cap_done sen t) \<and> (\<forall>t. round_ms t = POLL_MS) \<longrightarrow>
      captureJPEG round_ms sen c
        = Some (Inl Capture_Timeout, c\<lparr>clock := clock c + TIMEOUT_MS + POLL_MS\<rparr>))
   \<and> (\<not> isAvailable c \<longrightarrow> captureJPEG round_ms sen c = Some (Inl Not_Available, c))"
proof -
  have bounded: "\<exists>c'. captureJPEG round_ms sen c = Some (Inl Capture_Timeout, c')
         \<and> TIMEOUT_MS < clock c' - clock c \<and> clock c' - clock c \<le> TIMEOUT_MS + R"
    if av: "isAvailable c" and never: "\<forall>t. \<not> cap_done sen t"
      and rounds: "\<forall>t. 1 \<le> round_ms t \<and> round_ms t \<le> R"
      and nowrap: "TIMEOUT_MS \<le> TIMEOUT_MS + R"
  proof -
    have sum: "unat (TIMEOUT_MS + R) = 1000 + unat R"
      using nowrap by (simp add: unat_plus_simple TIMEOUT_MS_def)
    then have "unat R + 1000 < 2 ^ 32"
      using unsigned_less [of "TIMEOUT_MS + R", where 'a = nat] by simp
    from wait_capture_done_returns [OF rounds this, of c "clock c" sen]
    obtain d c' where w: "wait_capture_done round_ms sen (clock c) c = Some (d, c')"
        "d \<longrightarrow> cap_done sen (clock c')"
        "\<not> d \<longrightarrow> 1000 < unat (clock c' - clock c) \<and> unat (clock c' - clock c) \<le> 1000 + unat R"
      by auto
    from w(2) never have d: "\<not> d" by blast
    with w(1) av have "captureJPEG round_ms sen c = Some (Inl Capture_Timeout, c')"
      by (simp add: captureJPEG_def)
    moreover from w(3) d have "TIMEOUT_MS < clock c' - clock c"
      by (simp add: word_less_nat_alt TIMEOUT_MS_def)
    moreover from w(3) d sum have "clock c' - clock c \<le> TIMEOUT_MS + R"
      by (simp add: word_le_nat_alt)
    ultimately show ?thesis by blast
  qed
  have exact: "captureJPEG round_ms sen c
        = Some (Inl Capture_Timeout, c\<lparr>clock := clock c + TIMEOUT_MS + POLL_MS\<rparr>)"
    if av: "isAvailable c" and never: "\<forall>t. \<not> cap_done sen t"
      and steady: "\<forall>t. round_ms t = POLL_MS"
  proof -
    have "\<forall>t. round_ms t = of_nat 1"
      using steady by (simp add: POLL_MS_def)
    from wait_capture_done_steady [OF never this, of 0 c "clock c"]
    have "wait_capture_done round_ms sen (clock c) c = Some (False, c\<lparr>clock := clock c + 1001\<rparr>)"
      by simp
    then show ?thesis
      using av by (simp add: captureJPEG_def TIMEOUT_MS_def POLL_MS_def add.assoc)
  qed
  have "captureJPEG round_ms sen c = Some (Inl Not_Available, c)" if "\<not> isAvailable c"
    using that by (simp add: captureJPEG_def)
  with bounded exact show ?thesis by blast
qed

theorem capture_timeout_witness:
  "captureJPEG (\<lambda>t. 1) \<lparr>cap_done = \<lambda>t. False, fifo_length = 500, fifo_data = \<lambda>i. 0\<rparr> camera_ready
     = Some (Inl Capture_Timeout, camera_ready\<lparr>clock := 1001\<rparr>)
   \<and> (\<exists>c'. captureJPEG (\<lambda>t. 3) \<lparr>cap_done = \<lambda>t. False, fifo_length = 500, fifo_data = \<lambda>i. 0\<rparr>
          camera_ready = Some (Inl Capture_Timeout, c')
        \<and> 1000 < clock c' - clock camera_ready \<and> clock c' - clock camera_ready \<le> 1003)"
proof -
  let ?sen = "\<lparr>cap_done = \<lambda>t. False, fifo_length = 500, fifo_data = \<lambda>i. 0\<rparr>"
  have "isAvailable camera_ready \<and> (\<forall>t. \<not> cap_done ?sen t) \<and> (\<forall>t :: UDOUBLE. (1 :: UDOUBLE) = POLL_MS)"
    by (simp add: camera_ready_def POLL_MS_def)
  then have "captureJPEG (\<lambda>t. 1) ?sen camera_ready =
      Some (Inl Capture_Timeout, camera_ready\<lparr>clock := clock camera_ready + TIMEOUT_MS + POLL_MS\<rparr>)"
    using capture_timeout [where c = camera_ready and sen = ?sen and round_ms = "\<lambda>t. 1"]
    by blast
  then have one: "captureJPEG (\<lambda>t. 1) ?sen camera_ready
      = Some (Inl Capture_Timeout, camera_ready\<lparr>clock := 1001\<rparr>)"
    by (simp add: camera_ready_def TIMEOUT_MS_def POLL_MS_def)
  have "isAvailable camera_ready \<and> (\<forall>t. \<not> cap_done ?sen t)
      \<and> (\<forall>t :: UDOUBLE. (1 :: UDOUBLE) \<le> 3 \<and> (3 :: UDOUBLE) \<le> 3) \<and> TIMEOUT_MS \<le> TIMEOUT_MS + 3"
    by (simp add: camera_ready_def TIMEOUT_MS_def)
  then have "\<exists>c'. captureJPEG (\<lambda>t. 3) ?sen camera_ready = Some (Inl Capture_Timeout, c')
      \<and> TIMEOUT_MS < clock c' - clock camera_ready
      \<and> clock c' - clock camera_ready \<le> TIMEOUT_MS + 3"
    using capture_timeout [where c = camera_ready and sen = ?sen and round_ms = "\<lambda>t. 3"
        and R = 3]
    by blast
  then have three: "\<exists>c'. captureJPEG (\<lambda>t. 3) ?sen camera_ready = Some (Inl Capture_Timeout, c')
      \<and> 1000 < clock c' - clock camera_ready \<and> clock c' - clock camera_ready \<le> 1003"
    by (simp add: TIMEOUT_MS_def)
  from one three show ?thesis by blast
qed

text \<open>
  C5 as stated puts no condition on the camera or on the clock. First, after a failed
  \<open>init\<close> the camera is marked unavailable, and \<open>captureJPEG\<close> returns failure with
  the clock where it was: less than the timeout has passed. Second, on an available
  camera whose rounds take 2 ms each, the timeout is taken at 1002 ms: more than the
  timeout plus one poll interval.
\<close>

theorem capture_timeout_counterexample:
  "captureJPEG (\<lambda>t. 1) \<lparr>cap_done = \<lambda>t. False, fifo_length = 500, fifo_data = \<lambda>i. 0\<rparr>
     (camera_ready\<lparr>isAvailable := False\<rparr>)
     = Some (Inl Not_Available, camera_ready\<lparr>isAvailable := False\<rparr>)
   \<and> clock (camera_ready\<lparr>isAvailable := False\<rparr>) - clock (camera_ready\<lparr>isAvailable := False\<rparr>)
     < TIMEOUT_MS
   \<and> captureJPEG (\<lambda>t. 2) \<lparr>cap_done = \<lambda>t. False, fifo_length = 500, fifo_data = \<lambda>i. 0\<rparr>
        camera_ready
     = Some (Inl Capture_Timeout, camera_ready\<lparr>clock := 1002\<rparr>)
   \<and> TIMEOUT_MS + POLL_MS < clock (camera_ready\<lparr>clock := 1002\<rparr>) - clock camera_ready"
proof -
  let ?sen = "\<lparr>cap_done = \<lambda>t. False, fifo_length = 500, fifo_data = \<lambda>i. 0\<rparr>"
  have "wait_capture_done (\<lambda>t. 2) ?sen (clock camera_ready) camera_ready
      = Some (False, camera_ready\<lparr>clock := clock camera_ready + of_nat ((1000 div 2 + 1) * 2)\<rparr>)"
    using wait_capture_done_steady [of ?sen "\<lambda>t. 2" 2 0 camera_ready "clock camera_ready"]
    by simp
  then have "captureJPEG (\<lambda>t. 2) ?sen camera_ready
      = Some (Inl Capture_Timeout, camera_ready\<lparr>clock := 1002\<rparr>)"
    by (simp add: captureJPEG_def camera_ready_def)
  then show ?thesis
    by (simp add: captureJPEG_def camera_ready_def TIMEOUT_MS_def POLL_MS_def)
qed

text \<open>
  C6. When \<open>captureJPEG\<close> returns true, the stored \<open>jpegLength\<close> is the length the
  sensor reported and lies between 1 and \<open>MAX_JPEG_SIZE\<close>. When the sensor reports 0
  or more than \<open>MAX_JPEG_SIZE\<close>, \<open>captureJPEG\<close> never returns true, and it does
  return, with failure, whenever the rounds of its wait loop move the clock by at least
  1 ms and at most \<open>R\<close> ms (with \<open>TIMEOUT_MS + R\<close> inside the 32 bits of the
  clock).
\<close>

theorem capture_length_invariant:
  "(captureJPEG round_ms sen c = Some (Inr (), c') \<longrightarrow>
      jpegLength c' = fifo_length sen \<and> 1 \<le> jpegLength c' \<and> jpegLength c' \<le> MAX_JPEG_SIZE)
   \<and> (fifo_length sen = 0 \<or> fifo_length sen > MAX_JPEG_SIZE \<longrightarrow>
      captureJPEG round_ms sen c \<noteq> Some (Inr (), c')
      \<and> ((\<forall>t. 1 \<le> round_ms t \<and> round_ms t \<le> R) \<and> TIMEOUT_MS \<le> TIMEOUT_MS + R \<longrightarrow>
          (\<exists>e c''. captureJPEG round_ms sen c = Some (Inl e, c''))))"
proof -
  have nz: "1 \<le> x" if "x \<noteq> 0" for x :: UDOUBLE
    using that by (simp add: word_le_nat_alt unat_gt_0 Suc_le_eq)
  have ok: "jpegLength c' = fifo_length sen \<and> 1 \<le> jpegLength c' \<and> jpegLength c' \<le> MAX_JPEG_SIZE"
    if "captureJPEG round_ms sen c = Some (Inr (), c')"
    using that
    by (auto simp: captureJPEG_def Let_def not_less nz split: option.splits prod.splits if_splits)
  have never: "captureJPEG round_ms sen c \<noteq> Some (Inr (), c')"
    if "fifo_length sen = 0 \<or> fifo_length sen > MAX_JPEG_SIZE"
    using that ok by (auto simp: not_less [symmetric])
  have returns: "\<exists>e c''. captureJPEG round_ms sen c = Some (Inl e, c'')"
    if bad: "fifo_length sen = 0 \<or> fifo_length sen > MAX_JPEG_SIZE"
      and rounds: "\<forall>t. 1 \<le> round_ms t \<and> round_ms t \<le> R"
      and nowrap: "TIMEOUT_MS \<le> TIMEOUT_MS + R"
  proof -
    have "unat (TIMEOUT_MS + R) = 1000 + unat R"
      using nowrap by (simp add: unat_plus_simple TIMEOUT_MS_def)
    then have "unat R + 1000 < 2 ^ 32"
      using unsigned_less [of "TIMEOUT_MS + R", where 'a = nat] by simp
    from wait_capture_done_returns [OF rounds this, of c "clock c" sen]
    obtain d c1 where "wait_capture_done round_ms sen (clock c) c = Some (d, c1)"
      by auto
    then show ?thesis
      using bad by (auto simp: captureJPEG_def Let_def)
  qed
  from ok never returns show ?thesis by blast
qed

theorem capture_length_invariant_witness:
  "(\<exists>c'. captureJPEG (\<lambda>t. 1) \<lparr>cap_done = \<lambda>t. True, fifo_length = 500, fifo_data = \<lambda>i. 0\<rparr>
        camera_ready = Some (Inr (), c') \<and> jpegLength c' = 500)
   \<and> (\<exists>e c'. captureJPEG (\<lambda>t. 1) \<lparr>cap_done = \<lambda>t. True, fifo_length = 0, fifo_data = \<lambda>i. 0\<rparr>
        camera_ready = Some (Inl e, c'))
   \<and> (\<exists>e c'. captureJPEG (\<lambda>t. 1) \<lparr>cap_done = \<lambda>t. True, fifo_length = 32769, fifo_data = \<lambda>i. 0\<rparr>
        camera_ready = Some (Inl e, c'))"
proof -
  let ?sen = "\<lparr>cap_done = \<lambda>t. True, fifo_length = 500, fifo_data = \<lambda>i. 0\<rparr>"
  let ?s0 = "\<lparr>cap_done = \<lambda>t. True, fifo_length = 0, fifo_data = \<lambda>i. 0\<rparr>"
  let ?s1 = "\<lparr>cap_done = \<lambda>t. True, fifo_length = 32769, fifo_data = \<lambda>i. 0\<rparr>"
  have r: "(\<forall>t :: UDOUBLE. (1 :: UDOUBLE) \<le> 1 \<and> (1 :: UDOUBLE) \<le> 1) \<and> TIMEOUT_MS \<le> TIMEOUT_MS + 1"
    by (simp add: TIMEOUT_MS_def)
  obtain c' where ok: "captureJPEG (\<lambda>t. 1) ?sen camera_ready = Some (Inr (), c')"
    by (simp add: captureJPEG_def camera_ready_def wait_capture_done.simps MAX_JPEG_SIZE_def)
  then have "jpegLength c' = fifo_length ?sen"
    using capture_length_invariant [where sen = ?sen and c = camera_ready and c' = c'
        and round_ms = "\<lambda>t. 1"] by blast
  with ok have a: "\<exists>c'. captureJPEG (\<lambda>t. 1) ?sen camera_ready = Some (Inr (), c')
      \<and> jpegLength c' = 500"
    by simp
  have "fifo_length ?s0 = 0 \<or> fifo_length ?s0 > MAX_JPEG_SIZE"
    by simp
  then have b: "\<exists>e c'. captureJPEG (\<lambda>t. 1) ?s0 camera_ready = Some (Inl e, c')"
    using capture_length_invariant [where sen = ?s0 and c = camera_ready
        and round_ms = "\<lambda>t. 1" and R = 1] r by blast
  have "fifo_length ?s1 = 0 \<or> fifo_length ?s1 > MAX_JPEG_SIZE"
    by (simp add: MAX_JPEG_SIZE_def)
  then have c: "\<exists>e c'. captureJPEG (\<lambda>t. 1) ?s1 camera_ready = Some (Inl e, c')"
    using capture_length_invariant [where sen = ?s1 and c = camera_ready
        and round_ms = "\<lambda>t. 1" and R = 1] r by blast
  from a b c show ?thesis by blast
qed

text \<open>
  C9. When \<open>captureJPEG\<close> returns through the timeout, \<open>jpegBuffer\<close> and
  \<open>jpegLength\<close> are what they were before the call, whatever the clock did.
\<close>

theorem capture_timeout_frame:
  "captureJPEG round_ms sen c = Some (Inl Capture_Timeout, c') \<Longrightarrow>
     jpegBuffer c' = jpegBuffer c \<and> jpegLength c' = jpegLength c"
proof -
  assume t: "captureJPEG round_ms sen c = Some (Inl Capture_Timeout, c')"
  then obtain d where w: "wait_capture_done round_ms sen (clock c) c = Some (d, c')"
    by (auto simp: captureJPEG_def Let_def split: if_splits option.splits prod.splits)
  from wait_capture_done_frame [OF w] show ?thesis by simp
qed

theorem capture_timeout_frame_witness:
  "captureJPEG (\<lambda>t. 1) \<lparr>cap_done = \<lambda>t. False, fifo_length = 500, fifo_data = \<lambda>i. 7\<rparr>
          (camera_ready\<lparr>jpegBuffer := [1, 2, 3], jpegLength := 3\<rparr>)
     = Some (Inl Capture_Timeout, camera_ready\<lparr>jpegBuffer := [1, 2, 3], jpegLength := 3, clock := 1001\<rparr>)
   \<and> jpegBuffer (camera_ready\<lparr>jpegBuffer := [1, 2, 3], jpegLength := 3, clock := 1001\<rparr>)
       = jpegBuffer (camera_ready\<lparr>jpegBuffer := [1, 2, 3], jpegLength := 3\<rparr>)
   \<and> jpegLength (camera_ready\<lparr>jpegBuffer := [1, 2, 3], jpegLength := 3, clock := 1001\<rparr>)
       = jpegLength (camera_ready\<lparr>jpegBuffer := [1, 2, 3], jpegLength := 3\<rparr>)"
proof -
  let ?sen = "\<lparr>cap_done = \<lambda>t. False, fifo_length = 500, fifo_data = \<lambda>i. 7\<rparr>"
  let ?c = "camera_ready\<lparr>jpegBuffer := [1, 2, 3], jpegLength := 3\<rparr>"
  have "wait_capture_done (\<lambda>t. 1) ?sen (clock ?c) ?c
      = Some (False, ?c\<lparr>clock := clock ?c + of_nat ((1000 div 1 + 1) * 1)\<rparr>)"
    using wait_capture_done_steady [of ?sen "\<lambda>t. 1" 1 0 ?c "clock ?c"] by simp
  then have t: "captureJPEG (\<lambda>t. 1) ?sen ?c = Some (Inl Capture_Timeout, ?c\<lparr>clock := 1001\<rparr>)"
    by (simp add: captureJPEG_def camera_ready_def)
  from capture_timeout_frame [OF t] t show ?thesis
    by blast
qed

section \<open>Decode\<close>

lemma memset_zero_whole: "length buf = n \<Longrightarrow> memset_zero buf n = replicate n 0"
  by (simp add: memset_zero_def)

text \<open>
  C3, as the code has it. \<open>decodeToFrameBuffer\<close> with a stored length of 0 returns
  failure before the \<open>memset\<close> and leaves the frame buffer as it was. With a non-zero
  length, a failed decode leaves the cleared buffer with the blocks written into it that
  the decoder gave to the callback before it failed; the buffer is all zero when the
  decoder gave none.
\<close>

theorem decode_failure:
  "length (frameBuffer c) = FRAME_BUFFER_SIZE \<Longrightarrow>
   (jpegLength c = 0 \<longrightarrow> decodeToFrameBuffer drawJpg c = (False, c))
   \<and> (jpegLength c \<noteq> 0 \<and> drawJpg (jpegBuffer c) (jpegLength c) = (blocks, rc) \<and> rc \<noteq> JDR_OK \<longrightarrow>
        \<not> fst (decodeToFrameBuffer drawJpg c)
        \<and> frameBuffer (snd (decodeToFrameBuffer drawJpg c))
            = foldl (\<lambda>fb b. tjpgCallback b fb) (replicate FRAME_BUFFER_SIZE 0) blocks
        \<and> (blocks = [] \<longrightarrow>
             frameBuffer (snd (decodeToFrameBuffer drawJpg c)) = replicate FRAME_BUFFER_SIZE 0))"
  by (simp add: decodeToFrameBuffer_def Let_def memset_zero_whole)

theorem decode_failure_witness:
  "\<not> fst (decodeToFrameBuffer (\<lambda>buf len. ([], 6))
        (camera_ready\<lparr>jpegLength := 500, frameBuffer := replicate FRAME_BUFFER_SIZE 255\<rparr>))
   \<and> frameBuffer (snd (decodeToFrameBuffer (\<lambda>buf len. ([], 6))
        (camera_ready\<lparr>jpegLength := 500, frameBuffer := replicate FRAME_BUFFER_SIZE 255\<rparr>)))
       = replicate FRAME_BUFFER_SIZE 0"
proof -
  let ?c = "camera_ready\<lparr>jpegLength := 500, frameBuffer := replicate FRAME_BUFFER_SIZE 255\<rparr>"
  let ?d = "\<lambda>(buf :: UBYTE list) (len :: UDOUBLE). ([] :: block list, 6 :: UWORD)"
  have "length (frameBuffer ?c) = FRAME_BUFFER_SIZE"
    by simp
  moreover have "jpegLength ?c \<noteq> 0 \<and> ?d (jpegBuffer ?c) (jpegLength ?c) = ([], 6) \<and> 6 \<noteq> JDR_OK"
    by (simp add: JDR_OK_def)
  ultimately show ?thesis
    using decode_failure [where c = ?c and drawJpg = ?d and blocks = "[]" and rc = 6]
    by blast
qed

text \<open>
  C3 as stated promises an all-zero buffer after every failed decode. First, a buffer
  that holds a picture (here every byte 255) and a stored length of 0: the decode fails
  and the picture is still there. Second, a decoder that hands over one 1 by 1 block of
  colour 0xFFFF at the origin and then reports an error: the decode fails and the first
  pixel of the buffer is set.
\<close>

theorem decode_failure_counterexample:
  "\<not> fst (decodeToFrameBuffer (\<lambda>buf len. ([], 6))
        (camera_ready\<lparr>frameBuffer := replicate FRAME_BUFFER_SIZE 255\<rparr>))
   \<and> frameBuffer (snd (decodeToFrameBuffer (\<lambda>buf len. ([], 6))
        (camera_ready\<lparr>frameBuffer := replicate FRAME_BUFFER_SIZE 255\<rparr>)))
       = replicate FRAME_BUFFER_SIZE 255
   \<and> frameBuffer (snd (decodeToFrameBuffer (\<lambda>buf len. ([], 6))
        (camera_ready\<lparr>frameBuffer := replicate FRAME_BUFFER_SIZE 255\<rparr>)))
       \<noteq> replicate FRAME_BUFFER_SIZE 0
   \<and> \<not> fst (decodeToFrameBuffer
        (\<lambda>buf len. ([\<lparr>blk_x = 0, blk_y = 0, blk_w = 1, blk_h = 1, bitmap = \<lambda>i. 0xFFFF\<rparr>], 6))
        (camera_ready\<lparr>jpegLength := 500\<rparr>))
   \<and> frameBuffer (snd (decodeToFrameBuffer
        (\<lambda>buf len. ([\<lparr>blk_x = 0, blk_y = 0, blk_w = 1, blk_h = 1, bitmap = \<lambda>i. 0xFFFF\<rparr>], 6))
        (camera_ready\<lparr>jpegLength := 500\<rparr>)))
       = (replicate FRAME_BUFFER_SIZE 0)[0 := 255, 1 := 255]
   \<and> frameBuffer (snd (decodeToFrameBuffer
        (\<lambda>buf len. ([\<lparr>blk_x = 0, blk_y = 0, blk_w = 1, blk_h = 1, bitmap = \<lambda>i. 0xFFFF\<rparr>], 6))
        (camera_ready\<lparr>jpegLength := 500\<rparr>)))
       \<noteq> replicate FRAME_BUFFER_SIZE 0"
proof -
  let ?b = "\<lparr>blk_x = 0, blk_y = 0, blk_w = 1, blk_h = 1, bitmap = \<lambda>i. 0xFFFF :: UWORD\<rparr>"
  have sz: "FRAME_BUFFER_SIZE = 153600"
    by (simp add: FRAME_BUFFER_SIZE_def FRAME_WIDTH_def FRAME_HEIGHT_def)
  have cols: "tjpg_cols ?b 0 0 (replicate 153600 0) = (replicate 153600 0)[0 := 255, 1 := 255]"
    by (simp add: tjpg_cols.simps Let_def dstIdx_def FRAME_WIDTH_def store_def)
  have rows: "tjpgCallback ?b (replicate 153600 0) = (replicate 153600 0)[0 := 255, 1 := 255]"
    by (simp add: tjpgCallback_def tjpg_rows.simps FRAME_HEIGHT_def cols)
  have "(replicate 153600 (0 :: UBYTE))[0 := 255, 1 := 255] ! 0 \<noteq> replicate 153600 0 ! 0"
    by simp
  then have ne: "(replicate 153600 (0 :: UBYTE))[0 := 255, 1 := 255] \<noteq> replicate 153600 0"
    by metis
  show ?thesis
    using ne
    by (simp add: decodeToFrameBuffer_def camera_ready_def sz memset_zero_def JDR_OK_def rows)
qed

section \<open>Request flags\<close>

text \<open>
  C8, as the code has it. Setting the flag twice is the same as setting it once. The
  check that follows two requests clears the flag and triggers one capture when it runs
  more than \<open>debounce\<close> ms after the last accepted press, and none otherwise; the check
  right after it finds the flag false and triggers nothing.
\<close>

theorem capture_requests_coalesce:
  "captureButtonISR (captureButtonISR s) = captureButtonISR s
   \<and> fst (checkCaptureButton d now (captureButtonISR (captureButtonISR s)))
       = (now - lastPress_capture s > d)
   \<and> \<not> captureRequested (snd (checkCaptureButton d now (captureButtonISR (captureButtonISR s))))
   \<and> checkCaptureButton d now' (snd (checkCaptureButton d now (captureButtonISR (captureButtonISR s))))
       = (False, snd (checkCaptureButton d now (captureButtonISR (captureButtonISR s))))"
  by (simp add: captureButtonISR_def checkCaptureButton_def)

theorem capture_requests_coalesce_witness:
  "fst (checkCaptureButton 200 5000 (captureButtonISR (captureButtonISR ui_init)))
   \<and> \<not> fst (checkCaptureButton 200 5001
         (snd (checkCaptureButton 200 5000 (captureButtonISR (captureButtonISR ui_init)))))"
proof -
  have "fst (checkCaptureButton 200 5000 (captureButtonISR (captureButtonISR ui_init)))
          = ((5000 :: UDOUBLE) - lastPress_capture ui_init > 200)"
    and "checkCaptureButton 200 5001
          (snd (checkCaptureButton 200 5000 (captureButtonISR (captureButtonISR ui_init))))
        = (False, snd (checkCaptureButton 200 5000 (captureButtonISR (captureButtonISR ui_init))))"
    using capture_requests_coalesce [where s = ui_init and d = 200 and now = 5000 and now' = 5001] by blast+
  then show ?thesis by (simp add: ui_init_def)
qed

text \<open>
  C8 as stated promises one capture for two requests. A press was accepted at 1000 ms;
  two more requests arrive and the check runs at 1100 ms, inside a debounce window of
  200 ms: no capture is triggered, and the requests are gone.
\<close>

theorem capture_requests_coalesce_counterexample:
  "checkCaptureButton 200 1100
     (captureButtonISR (captureButtonISR (ui_init\<lparr>lastPress_capture := 1000\<rparr>)))
   = (False, ui_init\<lparr>lastPress_capture := 1000\<rparr>)"
  by (simp add: captureButtonISR_def checkCaptureButton_def ui_init_def)

text \<open>
  C10. A request that is checked inside the debounce window (\<open>now - lastPress\<close> not
  above \<open>debounce\<close>) makes the check return false and clear the flag all the same: the
  request is dropped, and a later check, whenever it runs, returns false and changes
  nothing. \<open>checkModeButton\<close> does the same and leaves the mode as it was.
\<close>

theorem debounced_request_discarded:
  "(captureRequested s \<and> \<not> now - lastPress_capture s > d \<longrightarrow>
      checkCaptureButton d now s = (False, s\<lparr>captureRequested := False\<rparr>)
      \<and> checkCaptureButton d now' (snd (checkCaptureButton d now s))
          = (False, s\<lparr>captureRequested := False\<rparr>))
   \<and> (modeToggleRequested s \<and> \<not> now - lastPress_mode s > d \<longrightarrow>
      checkModeButton d now s = (False, s\<lparr>modeToggleRequested := False\<rparr>)
      \<and> checkModeButton d now' (snd (checkModeButton d now s))
          = (False, s\<lparr>modeToggleRequested := False\<rparr>))"
  by (simp add: checkCaptureButton_def checkModeButton_def)

theorem debounced_request_discarded_witness:
  "checkCaptureButton 200 1100 (captureButtonISR (ui_init\<lparr>lastPress_capture := 1000\<rparr>))
     = (False, ui_init\<lparr>lastPress_capture := 1000\<rparr>)
   \<and> checkCaptureButton 200 9000
       (snd (checkCaptureButton 200 1100 (captureButtonISR (ui_init\<lparr>lastPress_capture := 1000\<rparr>))))
     = (False, ui_init\<lparr>lastPress_capture := 1000\<rparr>)
   \<and> checkModeButton 200 1100 (modeButtonISR (ui_init\<lparr>lastPress_mode := 1000\<rparr>))
     = (False, ui_init\<lparr>lastPress_mode := 1000\<rparr>)
   \<and> checkModeButton 200 9000
       (snd (checkModeButton 200 1100 (modeButtonISR (ui_init\<lparr>lastPress_mode := 1000\<rparr>))))
     = (False, ui_init\<lparr>lastPress_mode := 1000\<rparr>)"
proof -
  let ?c = "captureButtonISR (ui_init\<lparr>lastPress_capture := 1000\<rparr>)"
  let ?m = "modeButtonISR (ui_init\<lparr>lastPress_mode := 1000\<rparr>)"
  have c: "captureRequested ?c \<and> \<not> 1100 - lastPress_capture ?c > 200"
    by (simp add: captureButtonISR_def ui_init_def)
  have m: "modeToggleRequested ?m \<and> \<not> 1100 - lastPress_mode ?m > 200"
    by (simp add: modeButtonISR_def ui_init_def)
  have ec: "?c\<lparr>captureRequested := False\<rparr> = ui_init\<lparr>lastPress_capture := 1000\<rparr>"
    by (simp add: captureButtonISR_def ui_init_def)
  have em: "?m\<lparr>modeToggleRequested := False\<rparr> = ui_init\<lparr>lastPress_mode := 1000\<rparr>"
    by (simp add: modeButtonISR_def ui_init_def)
  have "checkCaptureButton 200 1100 ?c = (False, ?c\<lparr>captureRequested := False\<rparr>)
      \<and> checkCaptureButton 200 9000 (snd (checkCaptureButton 200 1100 ?c))
          = (False, ?c\<lparr>captureRequested := False\<rparr>)"
    using debounced_request_discarded [where s = ?c and d = 200 and now = 1100 and now' = 9000] c
    by blast
  moreover have "checkModeButton 200 1100 ?m = (False, ?m\<lparr>modeToggleRequested := False\<rparr>)
      \<and> checkModeButton 200 9000 (snd (checkModeButton 200 1100 ?m))
          = (False, ?m\<lparr>modeToggleRequested := False\<rparr>)"
    using debounced_request_discarded [where s = ?m and d = 200 and now = 1100 and now' = 9000] m
    by blast
  ultimately show ?thesis unfolding ec em by blast
qed

end
